theory Spec2Isabelle
  imports Complex_Main
begin

unbundle bit_operations_syntax

section \<open>Frame extraction of \<open>script.py\<close>: the data model\<close>

text \<open>
  The script decodes a video frame by frame and stores every frame as
  \<open>frame_NNNN.jpg\<close> in an output directory, the writes being handed to a thread pool.
  Everything the script touches outside itself is made explicit here: the file system,
  the console, the capture handle, what OpenCV reports for a video, and the order in
  which the pool's workers get to run.

  A path is the list of its components (what \<open>pathlib\<close> calls \<open>parts\<close>), so that
  \<open>os.path.join(dir, name)\<close> is \<open>dir @ [name]\<close> and the parents of a directory are
  the prefixes of its list. A frame buffer is a list of numbers; nothing below looks
  inside one.
\<close>

type_synonym path = "string list"
type_synonym frame = "nat list"

text \<open>
  Exceptions of class \<open>Exception\<close>, which is what the handler of
  \<open>extract_frames\<close> catches: the ones Python raises itself in this script,
  \<open>MarkupError\<close> of \<open>rich\<close>, and \<open>Raised\<close> for whatever OpenCV, the operating
  system or the pool raise (\<open>cv2.error\<close>, \<open>OSError\<close>, \<open>RuntimeError\<close>), each carrying
  its text.
\<close>

datatype exn =
    ValueError string
  | FileExistsError path
  | NotADirectoryError path
  | MarkupError string
  | Raised string

text \<open>What is stored under a path: some file the script never looks into, or an image.\<close>

datatype file_content = Opaque | Jpeg frame

text \<open>
  One call of \<open>cap.read()\<close>: a frame with \<open>ret = True\<close>, \<open>ret = False\<close>, or an
  exception. One call of \<open>cv2.imwrite\<close>: the file is stored, or the call returns
  \<open>False\<close> and stores nothing (OpenCV does so when it cannot write the file), or it
  raises.
\<close>

datatype read_result = Decoded frame | NoFrame | ReadRaises exn

datatype write_outcome = Stored | NotStored | WriteRaises exn

text \<open>
  What \<open>cv2.VideoCapture(video)\<close> gives: whether \<open>isOpened()\<close> holds, the values
  \<open>cap.get\<close> reports (finite doubles, taken as reals), and the results of the
  successive calls of \<open>cap.read()\<close>. Past the end of \<open>stream\<close> a read returns
  \<open>ret = False\<close>.
\<close>

record video_source =
  opened :: bool
  prop_fps :: real
  prop_frame_count :: real
  prop_frame_width :: real
  prop_frame_height :: real
  prop_fourcc :: real
  stream :: "read_result list"

text \<open>The dictionary \<open>metadata\<close> of \<open>extract_frames\<close>; \<open>None\<close> is "Unknown".\<close>

record metadata =
  fps :: real
  total_frames :: int
  duration :: "real option"
  width :: int
  height :: int
  codec_str :: string

datatype message =
    NotFound path
  | OpenFailed
  | Table metadata
  | Success nat path
  | Error exn

datatype handle_state = NoHandle | NeverOpened | Opened | Released

text \<open>
  The world a run changes: directories, files, the lines printed on the console, and
  the state of the capture handle \<open>cap\<close>.
\<close>

record world =
  dirs :: "path set"
  files :: "path \<rightharpoonup> file_content"
  console :: "message list"
  handle :: handle_state

text \<open>
  The surroundings a run cannot change: what OpenCV finds at a path, what
  \<open>cv2.imwrite\<close> does with a path and a frame, whether the operating system refuses
  to create a directory (\<open>os.mkdir\<close> of that one path), whether the pool refuses the
  \<open>n\<close>-th \<open>submit\<close>, and what the markup parser of \<open>rich\<close> makes of a line in
  which the interpolated text has a bracket: \<open>None\<close> when the line prints, the
  \<open>MarkupError\<close> when a tag in the text closes nothing.
\<close>

record env =
  capture :: "path \<Rightarrow> video_source"
  imwrite :: "path \<Rightarrow> frame \<Rightarrow> write_outcome"
  mkdir_refused :: "path \<Rightarrow> exn option"
  submit_refused :: "nat \<Rightarrow> exn option"
  markup_error :: "message \<Rightarrow> exn option"

text \<open>
  The freedom of the thread pool: \<open>place j\<close> picks, among the positions a pool of the
  given size allows, when the \<open>j\<close>-th job runs, and \<open>first_yield\<close> picks which failed
  future \<open>as_completed\<close> hands back first.
\<close>

record scheduler =
  place :: "nat \<Rightarrow> nat"
  first_yield :: nat

section \<open>File names\<close>

text \<open>
  \<open>f"frame_{frame_count:04d}.jpg"\<close>: the decimal digits of the index, padded with
  zeros on the left to at least four characters.
\<close>

definition digit_char :: "nat \<Rightarrow> char" where
  "digit_char d = ''0123456789'' ! d"

fun dec :: "nat \<Rightarrow> string" where
  "dec n = (if n < 10 then [digit_char n] else dec (n div 10) @ [digit_char (n mod 10)])"

declare dec.simps [simp del]

definition pad4 :: "nat \<Rightarrow> string" where
  "pad4 n = replicate (4 - length (dec n)) CHR ''0'' @ dec n"

definition frame_name :: "nat \<Rightarrow> string" where
  "frame_name n = ''frame_'' @ pad4 n @ ''.jpg''"

definition frame_path :: "path \<Rightarrow> nat \<Rightarrow> path" where
  "frame_path dir n = dir @ [frame_name n]"

text \<open>
  Reading a decimal numeral back, to show that no two indices share a name.
\<close>

definition digit_val :: "char \<Rightarrow> nat" where
  "digit_val c = of_char c - 48"

definition undec :: "string \<Rightarrow> nat" where
  "undec s = foldl (\<lambda>a c. 10 * a + digit_val c) 0 s"

section \<open>Metadata\<close>

text \<open>
  \<open>int(x)\<close> on a float truncates towards zero. \<open>x or d\<close> is \<open>d\<close> exactly when
  \<open>x\<close> is zero: a negative number is true in Python.
\<close>

definition py_int :: "real \<Rightarrow> int" where
  "py_int x = (if 0 \<le> x then \<lfloor>x\<rfloor> else \<lceil>x\<rceil>)"

definition or_default :: "'a::zero \<Rightarrow> 'a \<Rightarrow> 'a" where
  "or_default x d = (if x = 0 then d else x)"

text \<open>
  \<open>"".join([chr((codec >> 8 * i) & 0xFF) for i in range(4)]) if codec else "Unknown"\<close>.
  On Python's integers \<open>>>\<close> is \<open>drop_bit\<close> and \<open>&\<close> is \<open>AND\<close>.
\<close>

definition codec_chars :: "int \<Rightarrow> string" where
  "codec_chars codec = map (\<lambda>i. char_of (drop_bit (8 * i) codec AND 255)) [0..<4]"

definition codec_tag :: "int \<Rightarrow> string" where
  "codec_tag codec = (if codec \<noteq> 0 then codec_chars codec else ''Unknown'')"

definition read_metadata :: "video_source \<Rightarrow> metadata" where
  "read_metadata cap =
     (let fps = or_default (prop_fps cap) 30;
          total_frames = or_default (py_int (prop_frame_count cap)) 1;
          width = py_int (prop_frame_width cap);
          height = py_int (prop_frame_height cap);
          duration = (if 0 < fps then Some (real_of_int total_frames / fps) else None);
          codec = py_int (prop_fourcc cap)
      in \<lparr>fps = fps, total_frames = total_frames, duration = duration,
          width = width, height = height, codec_str = codec_tag codec\<rparr>)"

section \<open>The file system\<close>

definition is_file :: "world \<Rightarrow> path \<Rightarrow> bool" where
  "is_file w p = (p \<in> dom (files w))"

text \<open>
  A directory and its parents, the outermost first: the non-empty prefixes of the path.
  The empty path is the root, which is always there.
\<close>

definition with_parents :: "path \<Rightarrow> path list" where
  "with_parents p = map (\<lambda>n. take n p) [1..<Suc (length p)]"

definition is_dir :: "world \<Rightarrow> path \<Rightarrow> bool" where
  "is_dir w p = (p = [] \<or> p \<in> dirs w)"

text \<open>
  \<open>Path(dir).mkdir(parents=True, exist_ok=True)\<close>. \<open>os.mkdir(dir)\<close> raises
  \<open>FileExistsError\<close> when \<open>dir\<close> is a file and \<open>NotADirectoryError\<close> when a parent of
  \<open>dir\<close> is one, both naming \<open>dir\<close>, and \<open>pathlib\<close> passes them on. Otherwise the
  missing directories are made from the outermost to \<open>dir\<close> itself, one \<open>os.mkdir\<close>
  each; a directory that exists is accepted as it is. When the operating system refuses
  one of them, the exception leaves \<open>mkdir\<close> and the directories made before it stay.
  An exception comes with the world it leaves behind.
\<close>

fun make_dirs :: "env \<Rightarrow> path list \<Rightarrow> world \<Rightarrow> (exn \<times> world) + world" where
  "make_dirs e [] w = Inr w"
| "make_dirs e (q # qs) w =
     (if is_dir w q then make_dirs e qs w
      else case mkdir_refused e q of
        Some x \<Rightarrow> Inl (x, w)
      | None \<Rightarrow> make_dirs e qs (w\<lparr>dirs := insert q (dirs w)\<rparr>))"

definition mkdir :: "env \<Rightarrow> path \<Rightarrow> world \<Rightarrow> (exn \<times> world) + world" where
  "mkdir e dir w =
     (if is_file w dir then Inl (FileExistsError dir, w)
      else if list_ex (is_file w) (with_parents dir) then Inl (NotADirectoryError dir, w)
      else make_dirs e (with_parents dir) w)"

section \<open>The console\<close>

text \<open>
  Every line is printed with \<open>console.print\<close>, which reads its argument as markup,
  and the script puts the path of the video and the text of an exception into the line
  as they are. A text without a bracket holds no tag, and the line prints. A text with
  a bracket is up to the parser: the line prints, or \<open>console.print\<close> raises
  \<open>MarkupError\<close> and prints nothing. The line of the open failure is fixed text; the
  cells of the table are numbers and the codec tag, which is taken to hold no markup.
\<close>

fun path_text :: "path \<Rightarrow> string" where
  "path_text [] = []"
| "path_text [c] = c"
| "path_text (c # cs) = c @ ''/'' @ path_text cs"

definition quoted :: "string \<Rightarrow> string" where
  "quoted t = [CHR 0x27] @ t @ [CHR 0x27]"

fun exn_text :: "exn \<Rightarrow> string" where
  "exn_text (ValueError t) = t"
| "exn_text (FileExistsError p) = ''[Errno 17] File exists: '' @ quoted (path_text p)"
| "exn_text (NotADirectoryError p) = ''[Errno 20] Not a directory: '' @ quoted (path_text p)"
| "exn_text (MarkupError t) = t"
| "exn_text (Raised t) = t"

fun interpolated :: "message \<Rightarrow> string" where
  "interpolated (NotFound video) = path_text video"
| "interpolated OpenFailed = []"
| "interpolated (Table md) = []"
| "interpolated (Success frame_count video) = path_text video"
| "interpolated (Error x) = exn_text x"

definition accepted :: "env \<Rightarrow> message \<Rightarrow> bool" where
  "accepted e m = (CHR ''['' \<in> set (interpolated m) \<longrightarrow> markup_error e m = None)"

definition print :: "env \<Rightarrow> message \<Rightarrow> world \<Rightarrow> (exn + unit) \<times> world" where
  "print e m w =
     (case (if CHR ''['' \<in> set (interpolated m) then markup_error e m else None) of
        Some x \<Rightarrow> (Inl x, w)
      | None \<Rightarrow> (Inr (), w\<lparr>console := console w @ [m]\<rparr>))"

section \<open>Writing one frame\<close>

text \<open>
  \<open>save_frame\<close>: the path is built from the index, and \<open>cv2.imwrite\<close> is called.
  Its return value is thrown away, so a call that stores nothing ends like one that
  stores the file; only an exception is kept, in the job's future.
\<close>

definition save_frame :: "env \<Rightarrow> frame \<Rightarrow> nat \<Rightarrow> path \<Rightarrow> world \<Rightarrow> (exn + unit) \<times> world" where
  "save_frame e frame frame_count dir w =
     (let frame_path = frame_path dir frame_count in
      case imwrite e frame_path frame of
        Stored \<Rightarrow> (Inr (), w\<lparr>files := (files w)(frame_path \<mapsto> Jpeg frame)\<rparr>)
      | NotStored \<Rightarrow> (Inr (), w)
      | WriteRaises x \<Rightarrow> (Inl x, w))"

section \<open>The thread pool\<close>

text \<open>
  The jobs leave the pool's queue in the order of their submission, and a pool of
  \<open>k\<close> workers runs at most \<open>k\<close> of them at a time: when job \<open>j\<close> starts, at most
  \<open>k - 1\<close> of the jobs before it are still running. A job is one call of
  \<open>cv2.imwrite\<close>, taken as one step. So the order in which the writes happen is any
  order in which job \<open>j\<close> comes after at least \<open>j + 1 - k\<close> of the jobs \<open>0 .. j - 1\<close>,
  and \<open>run_order\<close> builds each such order, job by job: job \<open>j\<close> is put behind
  \<open>j - c\<close> earlier ones, where \<open>c < min k (j + 1)\<close> is the scheduler's pick. With one
  worker this is the order of submission.
\<close>

definition insert_at :: "nat \<Rightarrow> 'a \<Rightarrow> 'a list \<Rightarrow> 'a list" where
  "insert_at p x xs = take p xs @ x # drop p xs"

fun run_order :: "scheduler \<Rightarrow> nat \<Rightarrow> nat \<Rightarrow> nat list" where
  "run_order s k 0 = []"
| "run_order s k (Suc j) = insert_at (j - place s j mod min k (Suc j)) j (run_order s k j)"

text \<open>
  The workers run the jobs \<open>futures\<close> in the order \<open>order\<close>; the result is the list of
  the exceptions that the futures hold, and the world after the writes.
\<close>

fun run_jobs :: "env \<Rightarrow> path \<Rightarrow> (frame \<times> nat) list \<Rightarrow> nat list \<Rightarrow> world \<Rightarrow> exn list \<times> world" where
  "run_jobs e dir futures [] w = ([], w)"
| "run_jobs e dir futures (i # order) w =
     (case save_frame e (fst (futures ! i)) (snd (futures ! i)) dir w of
        (r, w') \<Rightarrow>
          (case run_jobs e dir futures order w' of
             (xs, w'') \<Rightarrow> ((case r of Inl x \<Rightarrow> [x] | Inr _ \<Rightarrow> []) @ xs, w'')))"

section \<open>The extraction loop\<close>

text \<open>
  The \<open>while\<close> loop of \<open>extract_frames\<close> over the reads still to come: a decoded
  frame is submitted with the current \<open>frame_count\<close>, which then goes up by one;
  \<open>ret = False\<close> leaves the loop; an exception of \<open>cap.read\<close> or of \<open>submit\<close>
  leaves it with what was submitted before. \<open>cap.isOpened()\<close> stays true in the loop,
  since nothing releases the handle there.
\<close>

fun read_loop :: "env \<Rightarrow> read_result list \<Rightarrow> nat \<Rightarrow> (frame \<times> nat) list
    \<Rightarrow> (exn + unit) \<times> nat \<times> (frame \<times> nat) list" where
  "read_loop e [] frame_count futures = (Inr (), frame_count, futures)"
| "read_loop e (NoFrame # rest) frame_count futures = (Inr (), frame_count, futures)"
| "read_loop e (ReadRaises x # rest) frame_count futures = (Inl x, frame_count, futures)"
| "read_loop e (Decoded frame # rest) frame_count futures =
     (case submit_refused e frame_count of
        Some x \<Rightarrow> (Inl x, frame_count, futures)
      | None \<Rightarrow> read_loop e rest (Suc frame_count) (futures @ [(frame, frame_count)]))"

text \<open>
  The block \<open>with ThreadPoolExecutor(max_workers=threads) as executor\<close>. The
  constructor raises \<open>ValueError\<close> for \<open>threads \<le> 0\<close>. Leaving the block, also by an
  exception, waits for every submitted job, so all of them have run afterwards. Without
  an exception of the loop, \<open>future.result()\<close> raises the exception of the first
  failed future that \<open>as_completed\<close> hands back. The result is the exception, or the
  final \<open>frame_count\<close>.
\<close>

definition pipeline :: "env \<Rightarrow> scheduler \<Rightarrow> video_source \<Rightarrow> path \<Rightarrow> int \<Rightarrow> world
    \<Rightarrow> (exn + nat) \<times> world" where
  "pipeline e s cap dir threads w =
     (if threads \<le> 0 then (Inl (ValueError ''max_workers must be greater than 0''), w)
      else case read_loop e (stream cap) 0 [] of
        (r, frame_count, futures) \<Rightarrow>
          (case run_jobs e dir futures (run_order s (nat threads) (length futures)) w of
             (failed, w') \<Rightarrow>
               (case r of
                  Inl x \<Rightarrow> (Inl x, w')
                | Inr _ \<Rightarrow>
                    (if failed = [] then (Inr frame_count, w')
                     else (Inl (failed ! (first_yield s mod length failed)), w')))))"

section \<open>\<open>extract_frames\<close>\<close>

text \<open>
  The body of the \<open>try\<close> block: \<open>Inl\<close> is an exception that leaves it, a print's
  included. The progress bar and the layout of the table are display only and are left
  out.
\<close>

definition extract_body :: "env \<Rightarrow> scheduler \<Rightarrow> path \<Rightarrow> path \<Rightarrow> int \<Rightarrow> world
    \<Rightarrow> (exn + unit) \<times> world" where
  "extract_body e s video dir threads w =
     (if \<not> is_file w video then print e (NotFound video) w
      else case mkdir e dir w of
        Inl (x, w') \<Rightarrow> (Inl x, w')
      | Inr w1 \<Rightarrow>
          (let cap = capture e video in
           if \<not> opened cap then print e OpenFailed (w1\<lparr>handle := NeverOpened\<rparr>)
           else
             (case print e (Table (read_metadata cap)) (w1\<lparr>handle := Opened\<rparr>) of
                (Inl x, w2) \<Rightarrow> (Inl x, w2)
              | (Inr _, w2) \<Rightarrow>
                  (case pipeline e s cap dir threads w2 of
                     (Inl x, w3) \<Rightarrow> (Inl x, w3)
                   | (Inr frame_count, w3) \<Rightarrow>
                       print e (Success frame_count video) (w3\<lparr>handle := Released\<rparr>)))))"

text \<open>
  \<open>extract_frames\<close>: the body under \<open>except Exception as e\<close>, which prints the
  exception. The first component is what reaches the caller: an exception only when
  the handler's own print raises.
\<close>

definition extract_frames :: "env \<Rightarrow> scheduler \<Rightarrow> path \<Rightarrow> path \<Rightarrow> int \<Rightarrow> world
    \<Rightarrow> (exn + unit) \<times> world" where
  "extract_frames e s video dir threads w =
     (case extract_body e s video dir threads w of
        (Inl x, w') \<Rightarrow> print e (Error x) w'
      | (Inr u, w') \<Rightarrow> (Inr u, w'))"

text \<open>
  The world in which the pool is built, when the video exists and opens and \<open>mkdir\<close>
  has returned: the directories are there, the handle is open, the table is printed.
\<close>

definition at_pool :: "env \<Rightarrow> path \<Rightarrow> path \<Rightarrow> world \<Rightarrow> world" where
  "at_pool e video dir w =
     w\<lparr>dirs := dirs w \<union> set (with_parents dir), handle := Opened,
       console := console w @ [Table (read_metadata (capture e video))]\<rparr>"

section \<open>Counting the frame files\<close>

text \<open>
  The frame image files of a directory: the files directly in it whose name is
  \<open>frame_\<close>, at least four digits, \<open>.jpg\<close>.
\<close>

definition is_frame_name :: "string \<Rightarrow> bool" where
  "is_frame_name s =
     (let ds = take (length s - 10) (drop 6 s)
      in s = ''frame_'' @ ds @ ''.jpg'' \<and> 4 \<le> length ds
         \<and> list_all (\<lambda>c. c \<in> set ''0123456789'') ds)"

definition frame_files :: "path \<Rightarrow> world \<Rightarrow> path set" where
  "frame_files dir w =
     {p \<in> dom (files w). p \<noteq> [] \<and> butlast p = dir \<and> is_frame_name (last p)}"

section \<open>Example surroundings\<close>

text \<open>
  A video \<open>clips/a.mp4\<close> of three frames in an otherwise empty file system, and
  surroundings in which every write stores its file and nothing is refused.
\<close>

definition clip :: video_source where
  "clip = \<lparr>opened = True, prop_fps = 25, prop_frame_count = 3, prop_frame_width = 4,
     prop_frame_height = 2, prop_fourcc = 875967048,
     stream = [Decoded [1], Decoded [2], Decoded [3], NoFrame]\<rparr>"

text \<open>
  For the examples, a parser that raises on every closing tag in the interpolated text,
  with an error that names the tag. The examples use the tag \<open>[/x]\<close>, which matches
  none of the tags that the script's lines open, so that \<open>rich\<close> raises on it
  wherever it stands in the line.
\<close>

fun has_closing_tag :: "string \<Rightarrow> bool" where
  "has_closing_tag (a # b # cs) = (a = CHR ''['' \<and> b = CHR ''/'' \<or> has_closing_tag (b # cs))"
| "has_closing_tag cs = False"

definition closes_nothing :: "message \<Rightarrow> exn option" where
  "closes_nothing m =
     (if has_closing_tag (interpolated m)
      then Some (MarkupError ''closing tag [/x] does not match any open tag'')
      else None)"

definition calm :: env where
  "calm = \<lparr>capture = (\<lambda>p. clip), imwrite = (\<lambda>p f. Stored),
     mkdir_refused = (\<lambda>p. None), submit_refused = (\<lambda>n. None),
     markup_error = closes_nothing\<rparr>"

definition start :: world where
  "start = \<lparr>dirs = {}, files = [[''clips'', ''a.mp4''] \<mapsto> Opaque], console = [],
     handle = NoHandle\<rparr>"

definition fifo :: scheduler where
  "fifo = \<lparr>place = (\<lambda>j. 0), first_yield = 0\<rparr>"

text \<open>
  Variations: a file that OpenCV cannot open, a disk on which \<open>cv2.imwrite\<close> stores
  nothing and returns \<open>False\<close>, a disk on which it raises, one on which the text of
  what it raises holds a tag, and a source that reports negative values.
\<close>

definition unreadable :: env where
  "unreadable = calm\<lparr>capture := (\<lambda>p. clip\<lparr>opened := False\<rparr>)\<rparr>"

definition silent :: env where
  "silent = calm\<lparr>imwrite := (\<lambda>p f. NotStored)\<rparr>"

definition raising :: env where
  "raising = calm\<lparr>imwrite := (\<lambda>p f. WriteRaises (Raised ''could not write''))\<rparr>"


definition odd_clip :: video_source where
  "odd_clip = clip\<lparr>prop_fps := - 1, prop_frame_count := - 5\<rparr>"

section \<open>File names are one to one\<close>

lemma digit_val_digit_char: "d < 10 \<Longrightarrow> digit_val (digit_char d) = d"
proof -
  assume "d < 10"
  then have "d = 0 \<or> d = 1 \<or> d = 2 \<or> d = 3 \<or> d = 4 \<or> d = 5 \<or> d = 6 \<or> d = 7
      \<or> d = 8 \<or> d = 9"
    by arith
  then show ?thesis
    by (auto simp: digit_char_def digit_val_def)
qed

lemma undec_snoc: "undec (s @ [c]) = 10 * undec s + digit_val c"
  by (simp add: undec_def)

lemma undec_dec: "undec (dec n) = n"
proof (induction n rule: dec.induct)
  case (1 n)
  show ?case
  proof (cases "n < 10")
    case True
    then show ?thesis
      by (subst dec.simps) (simp add: undec_def digit_val_digit_char)
  next
    case False
    then have "undec (dec (n div 10)) = n div 10"
      using "1.IH" by simp
    with False show ?thesis
      by (subst dec.simps) (simp add: undec_snoc digit_val_digit_char)
  qed
qed

lemma undec_zeros: "undec (replicate k CHR ''0'' @ s) = undec s"
proof -
  have "foldl (\<lambda>a c. 10 * a + digit_val c) 0 (replicate k CHR ''0'') = 0"
    by (induction k) (simp_all add: digit_val_def)
  then show ?thesis
    by (simp add: undec_def)
qed

lemma undec_pad4: "undec (pad4 n) = n"
  by (simp add: pad4_def undec_zeros undec_dec)

lemma pad4_inj: "pad4 m = pad4 n \<Longrightarrow> m = n"
  by (metis undec_pad4)

lemma frame_name_inj: "frame_name m = frame_name n \<longleftrightarrow> m = n"
  by (auto simp: frame_name_def dest: pad4_inj)

lemma frame_path_inj [simp]: "frame_path dir m = frame_path dir n \<longleftrightarrow> m = n"
  by (simp add: frame_path_def frame_name_inj)

lemma inj_frame_path: "inj_on (frame_path dir) A"
  by (simp add: inj_on_def)

lemma card_frame_paths: "card (frame_path dir ` {0..<n}) = n"
  by (simp add: card_image inj_frame_path)






section \<open>The pool and the loop\<close>

lemma set_insert_at: "set (insert_at p x xs) = insert x (set xs)"
proof -
  have "set (take p xs) \<union> set (drop p xs) = set xs"
    by (metis append_take_drop_id set_append)
  then show ?thesis
    by (auto simp: insert_at_def)
qed

lemma distinct_insert_at: "distinct (insert_at p x xs) \<longleftrightarrow> x \<notin> set xs \<and> distinct xs"
proof -
  have "distinct (ys @ x # zs) \<longleftrightarrow> x \<notin> set (ys @ zs) \<and> distinct (ys @ zs)" for ys zs :: "'a list"
    by auto
  from this [of "take p xs" "drop p xs"] show ?thesis
    by (simp add: insert_at_def)
qed

lemma set_run_order: "set (run_order s k n) = {0..<n}"
  by (induction n) (auto simp: set_insert_at)

lemma distinct_run_order: "distinct (run_order s k n)"
  by (induction n) (simp_all add: distinct_insert_at set_run_order)

lemma length_run_order: "length (run_order s k n) = n"
  by (induction n) (simp_all add: insert_at_def)

lemma run_order_one_worker: "run_order s 1 n = [0..<n]"
  by (induction n) (simp_all add: insert_at_def length_run_order)

lemma save_frame_files:
  "files (snd (save_frame e f i dir w)) =
     (if imwrite e (frame_path dir i) f = Stored then (files w)(frame_path dir i \<mapsto> Jpeg f)
      else files w)"
  by (simp add: save_frame_def Let_def split: write_outcome.split)

lemma save_frame_rest:
  "dirs (snd (save_frame e f i dir w)) = dirs w"
  "console (snd (save_frame e f i dir w)) = console w"
  "handle (snd (save_frame e f i dir w)) = handle w"
  by (simp_all add: save_frame_def Let_def split: write_outcome.split)

lemma save_frame_result:
  "fst (save_frame e f i dir w) =
     (case imwrite e (frame_path dir i) f of WriteRaises x \<Rightarrow> Inl x | _ \<Rightarrow> Inr ())"
  by (simp add: save_frame_def Let_def split: write_outcome.split)

lemma run_jobs_Cons:
  "snd (run_jobs e dir futs (i # order) w) =
     snd (run_jobs e dir futs order (snd (save_frame e (fst (futs ! i)) (snd (futs ! i)) dir w)))"
  by (simp split: prod.split)

lemma run_jobs_rest:
  "dirs (snd (run_jobs e dir futs order w)) = dirs w"
  "console (snd (run_jobs e dir futs order w)) = console w"
  "handle (snd (run_jobs e dir futs order w)) = handle w"
proof (induction order arbitrary: w)
  case Nil
  {
    case 1 show ?case by simp
  next
    case 2 show ?case by simp
  next
    case 3 show ?case by simp
  }
next
  case (Cons i order)
  {
    case 1 show ?case by (simp only: run_jobs_Cons Cons.IH save_frame_rest)
  next
    case 2 show ?case by (simp only: run_jobs_Cons Cons.IH save_frame_rest)
  next
    case 3 show ?case by (simp only: run_jobs_Cons Cons.IH save_frame_rest)
  }
qed

lemma run_jobs_other:
  assumes "\<And>i. i \<in> set order \<Longrightarrow> snd (futs ! i) = i"
    and "\<And>i. i \<in> set order \<Longrightarrow> p = frame_path dir i \<Longrightarrow> imwrite e p (fst (futs ! i)) \<noteq> Stored"
  shows "files (snd (run_jobs e dir futs order w)) p = files w p"
  using assms
proof (induction order arbitrary: w)
  case Nil
  show ?case by simp
next
  case (Cons i order)
  have "files (snd (save_frame e (fst (futs ! i)) (snd (futs ! i)) dir w)) p = files w p"
    using Cons.prems(1) [of i] Cons.prems(2) [of i] by (auto simp: save_frame_files)
  moreover have "files (snd (run_jobs e dir futs order
      (snd (save_frame e (fst (futs ! i)) (snd (futs ! i)) dir w)))) p
    = files (snd (save_frame e (fst (futs ! i)) (snd (futs ! i)) dir w)) p"
    using Cons.prems by (intro Cons.IH) auto
  ultimately show ?case
    by (simp only: run_jobs_Cons)
qed

lemma run_jobs_stored:
  assumes "\<And>i. i \<in> set order \<Longrightarrow> snd (futs ! i) = i"
    and "j \<in> set order"
    and "imwrite e (frame_path dir j) (fst (futs ! j)) = Stored"
  shows "files (snd (run_jobs e dir futs order w)) (frame_path dir j) = Some (Jpeg (fst (futs ! j)))"
  using assms
proof (induction order arbitrary: w)
  case Nil
  then show ?case by simp
next
  case (Cons i order)
  let ?w = "snd (save_frame e (fst (futs ! i)) (snd (futs ! i)) dir w)"
  show ?case
  proof (cases "j \<in> set order")
    case True
    then have "files (snd (run_jobs e dir futs order ?w)) (frame_path dir j)
        = Some (Jpeg (fst (futs ! j)))"
      using Cons.prems by (intro Cons.IH) auto
    then show ?thesis
      by (simp only: run_jobs_Cons)
  next
    case False
    then have ji: "j = i"
      using Cons.prems(2) by simp
    have "snd (futs ! i) = i"
      using Cons.prems(1) by simp
    then have here: "files ?w (frame_path dir j) = Some (Jpeg (fst (futs ! j)))"
      using Cons.prems(3) ji by (simp add: save_frame_files)
    have "files (snd (run_jobs e dir futs order ?w)) (frame_path dir j) = files ?w (frame_path dir j)"
    proof (rule run_jobs_other)
      fix k assume "k \<in> set order"
      then show "snd (futs ! k) = k"
        using Cons.prems(1) by simp
    next
      fix k assume "k \<in> set order" and "frame_path dir j = frame_path dir k"
      with False show "imwrite e (frame_path dir j) (fst (futs ! k)) \<noteq> Stored"
        by simp
    qed
    with here show ?thesis
      by (simp only: run_jobs_Cons)
  qed
qed


lemma run_jobs_failed:
  "set (fst (run_jobs e dir futs order w)) =
     {x. \<exists>i \<in> set order. imwrite e (frame_path dir (snd (futs ! i))) (fst (futs ! i)) = WriteRaises x}"
proof (induction order arbitrary: w)
  case Nil
  show ?case by simp
next
  case (Cons i order)
  show ?case
    using Cons.IH [of "snd (save_frame e (fst (futs ! i)) (snd (futs ! i)) dir w)"]
    by (cases "imwrite e (frame_path dir (snd (futs ! i))) (fst (futs ! i))")
      (auto simp: save_frame_def Let_def split: prod.split)
qed

lemma read_loop_indices:
  "read_loop e rs n futs = (r, n', futs') \<Longrightarrow> map snd futs = [0..<n] \<Longrightarrow> map snd futs' = [0..<n']"
proof (induction e rs n futs rule: read_loop.induct)
  case (4 e frame rest frame_count futures)
  then show ?case
    by (cases "submit_refused e frame_count") auto
qed auto


section \<open>Runs of extract_frames\<close>

lemma print_accepted:
  "accepted e m \<Longrightarrow> print e m w = (Inr (), w\<lparr>console := console w @ [m]\<rparr>)"
  by (auto simp: print_def accepted_def)

lemma print_refused:
  "\<not> accepted e m \<Longrightarrow> \<exists>x. markup_error e m = Some x \<and> print e m w = (Inl x, w)"
  by (auto simp: print_def accepted_def)


lemma print_rest:
  "dirs (snd (print e m w)) = dirs w"
  "files (snd (print e m w)) = files w"
  "handle (snd (print e m w)) = handle w"
  by (simp_all add: print_def split: option.split)

lemma print_console:
  "console (snd (print e m w)) = (if accepted e m then console w @ [m] else console w)"
  by (auto simp: print_def accepted_def split: option.split)

lemma print_returns: "fst (print e m w) = Inr () \<longleftrightarrow> accepted e m"
  by (auto simp: print_def accepted_def split: option.split)

lemma print_Table [simp]:
  "print e (Table md) w = (Inr (), w\<lparr>console := console w @ [Table md]\<rparr>)"
  by (simp add: print_def)

lemma print_OpenFailed [simp]:
  "print e OpenFailed w = (Inr (), w\<lparr>console := console w @ [OpenFailed]\<rparr>)"
  by (simp add: print_def)

lemma print_pool_error [simp]:
  "print e (Error (ValueError ''max_workers must be greater than 0'')) w
    = (Inr (), w\<lparr>console := console w
        @ [Error (ValueError ''max_workers must be greater than 0'')]\<rparr>)"
  by (simp add: print_def)

lemma with_parents_nonempty: "[] \<notin> set (with_parents p)"
  by (cases p) (auto simp: with_parents_def)

lemma set_with_parents: "set (with_parents p) = {take n p |n. 0 < n \<and> n \<le> length p}"
  by (auto simp: with_parents_def)

lemma make_dirs_Inr:
  "[] \<notin> set qs \<Longrightarrow> make_dirs e qs w = Inr w1 \<Longrightarrow> w1 = w\<lparr>dirs := dirs w \<union> set qs\<rparr>"
proof (induction qs arbitrary: w)
  case Nil
  then show ?case by simp
next
  case (Cons q qs)
  show ?case
  proof (cases "is_dir w q")
    case True
    with Cons.prems have "q \<in> dirs w" and "make_dirs e qs w = Inr w1"
      by (auto simp: is_dir_def)
    with Cons.IH [of w] Cons.prems(1) show ?thesis
      by (simp add: insert_absorb)
  next
    case False
    with Cons.prems(2) have "make_dirs e qs (w\<lparr>dirs := insert q (dirs w)\<rparr>) = Inr w1"
      by (cases "mkdir_refused e q") simp_all
    with Cons.IH [of "w\<lparr>dirs := insert q (dirs w)\<rparr>"] Cons.prems(1) show ?thesis
      by simp
  qed
qed

lemma make_dirs_Inl:
  "make_dirs e qs w = Inl (x, w') \<Longrightarrow>
     files w' = files w \<and> console w' = console w \<and> handle w' = handle w"
proof (induction qs arbitrary: w)
  case Nil
  then show ?case by simp
next
  case (Cons q qs)
  show ?case
  proof (cases "is_dir w q")
    case True
    with Cons show ?thesis by simp
  next
    case False
    show ?thesis
    proof (cases "mkdir_refused e q")
      case None
      with False Cons.prems have "make_dirs e qs (w\<lparr>dirs := insert q (dirs w)\<rparr>) = Inl (x, w')"
        by simp
      from Cons.IH [OF this] show ?thesis
        by simp
    next
      case (Some y)
      with False Cons.prems show ?thesis
        by simp
    qed
  qed
qed

lemma mkdir_Inr:
  "mkdir e dir w = Inr w1 \<Longrightarrow> w1 = w\<lparr>dirs := dirs w \<union> set (with_parents dir)\<rparr>"
  using make_dirs_Inr [of "with_parents dir" e w w1]
  by (simp add: mkdir_def with_parents_nonempty split: if_splits)

lemma mkdir_Inl:
  "mkdir e dir w = Inl (x, w') \<Longrightarrow>
     files w' = files w \<and> console w' = console w \<and> handle w' = handle w"
  using make_dirs_Inl [of e "with_parents dir" w x w']
  by (auto simp: mkdir_def split: if_splits)

lemma last_with_parents: "dir \<noteq> [] \<Longrightarrow> dir \<in> set (with_parents dir)"
  unfolding set_with_parents by (rule CollectI, rule exI [of _ "length dir"]) simp

lemma mkdir_out_x:
  assumes "mkdir_refused e = (\<lambda>p. None)"
  shows "mkdir e [''out'', ''x''] start
    = Inr (start\<lparr>dirs := dirs start \<union> set (with_parents [''out'', ''x''])\<rparr>)"
  using assms
  by (simp add: mkdir_def is_file_def is_dir_def start_def with_parents_def insert_commute)

lemma mkdir_start: "mkdir calm [''out'', ''x''] start
    = Inr (start\<lparr>dirs := dirs start \<union> set (with_parents [''out'', ''x''])\<rparr>)"
  by (rule mkdir_out_x) (simp add: calm_def)

lemma mkdir_start_raising: "mkdir raising [''out'', ''x''] start
    = Inr (start\<lparr>dirs := dirs start \<union> set (with_parents [''out'', ''x''])\<rparr>)"
  by (rule mkdir_out_x) (simp add: raising_def calm_def)

lemma is_file_start: "is_file start [''clips'', ''a.mp4'']"
  by (simp add: is_file_def start_def)

lemma pipeline_no_pool:
  "threads \<le> 0 \<Longrightarrow> pipeline e s cap dir threads w
    = (Inl (ValueError ''max_workers must be greater than 0''), w)"
  by (simp add: pipeline_def)

lemma pipeline_snd:
  "0 < threads \<Longrightarrow> snd (pipeline e s cap dir threads w)
    = snd (run_jobs e dir (snd (snd (read_loop e (stream cap) 0 [])))
        (run_order s (nat threads) (length (snd (snd (read_loop e (stream cap) 0 []))))) w)"
  by (simp add: pipeline_def split: prod.split sum.split)

lemma pipeline_fst:
  "0 < threads \<Longrightarrow> fst (pipeline e s cap dir threads w)
    = (case fst (read_loop e (stream cap) 0 []) of
         Inl x \<Rightarrow> Inl x
       | Inr u \<Rightarrow>
          (let failed = fst (run_jobs e dir (snd (snd (read_loop e (stream cap) 0 [])))
             (run_order s (nat threads) (length (snd (snd (read_loop e (stream cap) 0 []))))) w)
           in if failed = [] then Inr (fst (snd (read_loop e (stream cap) 0 [])))
              else Inl (failed ! (first_yield s mod length failed))))"
  by (simp add: pipeline_def split: prod.split sum.split)

lemma pipeline_rest:
  "dirs (snd (pipeline e s cap dir threads w)) = dirs w"
  "console (snd (pipeline e s cap dir threads w)) = console w"
  "handle (snd (pipeline e s cap dir threads w)) = handle w"
  by (cases "0 < threads"; simp add: pipeline_snd run_jobs_rest pipeline_no_pool)+

text \<open>
  A run that gets as far as the pool: what the pipeline gives is printed, as the success
  line after the release of the handle or as the report of the exception, and an
  exception of the success line goes to the handler like any other.
\<close>

lemma extract_frames_run:
  assumes "is_file w video" and "mkdir e dir w = Inr w1" and "opened (capture e video)"
  shows "extract_frames e s video dir threads w
    = (case fst (pipeline e s (capture e video) dir threads (at_pool e video dir w)) of
         Inl x \<Rightarrow> print e (Error x)
           (snd (pipeline e s (capture e video) dir threads (at_pool e video dir w)))
       | Inr n \<Rightarrow>
          (case print e (Success n video)
             ((snd (pipeline e s (capture e video) dir threads (at_pool e video dir w)))
                \<lparr>handle := Released\<rparr>) of
             (Inl x, w') \<Rightarrow> print e (Error x) w'
           | (Inr u, w') \<Rightarrow> (Inr u, w')))"
  using assms mkdir_Inr [OF assms(2)]
  by (simp add: extract_frames_def extract_body_def Let_def at_pool_def
      split: prod.split sum.split)

lemma run_nonpositive_threads:
  assumes "threads \<le> 0" and "is_file w video" and "mkdir e dir w = Inr w1"
    and "opened (capture e video)"
  shows "extract_frames e s video dir threads w
    = (Inr (), w\<lparr>dirs := dirs w \<union> set (with_parents dir), handle := Opened,
         console := console w @ [Table (read_metadata (capture e video)),
           Error (ValueError ''max_workers must be greater than 0'')]\<rparr>)"
  using assms(1)
  by (simp add: extract_frames_run [OF assms(2-4)] pipeline_no_pool at_pool_def)

lemma pipeline_raising:
  "fst (pipeline raising fifo clip dir 4 w) = Inl (Raised ''could not write'')"
  by (simp add: pipeline_def raising_def calm_def clip_def fifo_def save_frame_def insert_at_def
      split: prod.split)

lemma handle_after_run:
  assumes "is_file w video" and "mkdir e dir w = Inr w1" and "opened (capture e video)"
  shows "handle (snd (extract_frames e s video dir threads w))
    = (if isl (fst (pipeline e s (capture e video) dir threads (at_pool e video dir w)))
       then Opened else Released)"
proof (cases "fst (pipeline e s (capture e video) dir threads (at_pool e video dir w))")
  case (Inl x)
  then show ?thesis
    by (simp add: extract_frames_run [OF assms] print_rest pipeline_rest at_pool_def)
next
  case (Inr n)
  let ?w = "(snd (pipeline e s (capture e video) dir threads (at_pool e video dir w)))
      \<lparr>handle := Released\<rparr>"
  have "handle (snd (case print e (Success n video) ?w of
      (Inl x, w') \<Rightarrow> print e (Error x) w' | (Inr u, w') \<Rightarrow> (Inr u, w'))) = Released"
    using print_rest(3) [of e "Success n video" ?w]
    by (cases "print e (Success n video) ?w") (auto simp: print_rest split: sum.split)
  with Inr show ?thesis
    by (simp add: extract_frames_run [OF assms])
qed






text \<open>
  C10. When the input is an existing file that does not open as a video, the output
  directory and every parent of it (every non-empty prefix of its path) is a directory
  by the time the failure is found, the open being tried only after \<open>mkdir\<close> has
  returned: the run ends with these directories added to the ones there were, the
  open failure as its only line, and the files untouched.
\<close>

theorem open_failure_after_mkdir:
  assumes "is_file w video" and "mkdir e dir w = Inr w1" and "\<not> opened (capture e video)"
  shows "fst (extract_frames e s video dir threads w) = Inr ()
    \<and> (\<forall>n. 0 < n \<and> n \<le> length dir \<longrightarrow>
          take n dir \<in> dirs (snd (extract_frames e s video dir threads w)))
    \<and> dirs (snd (extract_frames e s video dir threads w))
        = dirs w \<union> {take n dir |n. 0 < n \<and> n \<le> length dir}
    \<and> files (snd (extract_frames e s video dir threads w)) = files w
    \<and> console (snd (extract_frames e s video dir threads w)) = console w @ [OpenFailed]
    \<and> handle (snd (extract_frames e s video dir threads w)) = NeverOpened"
proof -
  have run: "extract_frames e s video dir threads w
      = (Inr (), w\<lparr>dirs := dirs w \<union> set (with_parents dir), handle := NeverOpened,
           console := console w @ [OpenFailed]\<rparr>)"
    using assms mkdir_Inr [OF assms(2)]
    by (simp add: extract_frames_def extract_body_def Let_def)
  show ?thesis
    unfolding run by (auto simp: set_with_parents)
qed

theorem open_failure_after_mkdir_witness:
  "is_file start [''clips'', ''a.mp4''] \<and> \<not> opened (capture unreadable [''clips'', ''a.mp4''])
   \<and> [''out''] \<notin> dirs start \<and> [''out'', ''x''] \<notin> dirs start
   \<and> [''out''] \<in> dirs (snd (extract_frames unreadable fifo [''clips'', ''a.mp4'']
        [''out'', ''x''] 4 start))
   \<and> [''out'', ''x''] \<in> dirs (snd (extract_frames unreadable fifo [''clips'', ''a.mp4'']
        [''out'', ''x''] 4 start))
   \<and> console (snd (extract_frames unreadable fifo [''clips'', ''a.mp4''] [''out'', ''x''] 4 start))
        = console start @ [OpenFailed]"
proof -
  have o: "\<not> opened (capture unreadable [''clips'', ''a.mp4''])"
    by (simp add: unreadable_def calm_def clip_def)
  have m: "mkdir unreadable [''out'', ''x''] start
      = Inr (start\<lparr>dirs := dirs start \<union> set (with_parents [''out'', ''x''])\<rparr>)"
    by (rule mkdir_out_x) (simp add: unreadable_def calm_def)
  have d: "[''out''] \<notin> dirs start \<and> [''out'', ''x''] \<notin> dirs start"
    by (simp add: start_def)
  note run = open_failure_after_mkdir [OF is_file_start m o, of fifo 4]
  have "take 1 [''out'', ''x''] \<in> dirs (snd (extract_frames unreadable fifo [''clips'', ''a.mp4'']
        [''out'', ''x''] 4 start))"
    by (rule run [THEN conjunct2, THEN conjunct1, rule_format]) simp
  moreover have "take 2 [''out'', ''x''] \<in> dirs (snd (extract_frames unreadable fifo
        [''clips'', ''a.mp4''] [''out'', ''x''] 4 start))"
    by (rule run [THEN conjunct2, THEN conjunct1, rule_format]) simp
  ultimately show ?thesis
    using run is_file_start o d by simp
qed

text \<open>
  C6. The handle is released when the pipeline ends without an exception, and only
  then: \<open>cap.release()\<close> stands behind the \<open>with\<close> block, and the handler prints
  and returns. So a run whose pool cannot be built (\<open>threads = 0\<close>) and a run in
  which a write raises both end with the handle still open.
\<close>

theorem handle_left_open:
  "handle (snd (extract_frames calm fifo [''clips'', ''a.mp4''] [''out'', ''x''] 0 start)) = Opened
   \<and> handle (snd (extract_frames raising fifo [''clips'', ''a.mp4''] [''out'', ''x''] 4 start)) = Opened"
proof -
  have o: "opened (capture calm [''clips'', ''a.mp4''])"
    by (simp add: calm_def clip_def)
  have z: "(0::int) \<le> 0"
    by simp
  have a: "handle (snd (extract_frames calm fifo [''clips'', ''a.mp4''] [''out'', ''x''] 0 start)) = Opened"
    by (simp add: run_nonpositive_threads [OF z is_file_start mkdir_start o])
  have o': "opened (capture raising [''clips'', ''a.mp4''])"
    by (simp add: raising_def calm_def clip_def)
  have c: "capture raising [''clips'', ''a.mp4''] = clip"
    by (simp add: raising_def calm_def)
  have "handle (snd (extract_frames raising fifo [''clips'', ''a.mp4''] [''out'', ''x''] 4 start)) = Opened"
    by (simp add: handle_after_run [OF is_file_start mkdir_start_raising o'] c pipeline_raising)
  with a show ?thesis
    by simp
qed

section \<open>Metadata: defaults and the codec tag\<close>

lemma py_int_zero: "py_int x = 0 \<longleftrightarrow> - 1 < x \<and> x < 1"
proof (cases "0 \<le> x")
  case True
  then show ?thesis
    by (auto simp: py_int_def floor_eq_iff)
next
  case False
  then show ?thesis
    by (auto simp: py_int_def ceiling_eq_iff)
qed

text \<open>
  C3, as the code has it. The frame rate in the metadata is 30 when the source reports
  exactly 0 and the reported value otherwise; the frame count is 1 when the reported
  count truncates to 0, that is, lies strictly between \<open>-1\<close> and \<open>1\<close>, and the
  truncated value otherwise. Negative values are therefore kept.
\<close>

theorem metadata_defaults:
  "fps (read_metadata cap) = (if prop_fps cap = 0 then 30 else prop_fps cap)
   \<and> total_frames (read_metadata cap)
       = (if - 1 < prop_frame_count cap \<and> prop_frame_count cap < 1 then 1
          else py_int (prop_frame_count cap))"
  by (simp add: read_metadata_def Let_def or_default_def py_int_zero)

text \<open>
  C3 as stated fails: a source that reports the frame rate \<open>-1\<close> and the frame count
  \<open>-5\<close> gets neither default.
\<close>

theorem metadata_defaults_counterexample:
  "prop_fps odd_clip \<le> 0 \<and> fps (read_metadata odd_clip) \<noteq> 30
   \<and> prop_frame_count odd_clip \<le> 0 \<and> total_frames (read_metadata odd_clip) \<noteq> 1"
  by (simp add: read_metadata_def Let_def or_default_def py_int_def odd_clip_def clip_def)

lemma and_255: "(x::int) AND 255 = x mod 256"
proof -
  have "x AND mask 8 = take_bit 8 x"
    by (simp only: take_bit_eq_mask)
  then show ?thesis
    by (simp add: mask_eq_exp_minus_1 take_bit_eq_mod)
qed

lemma codec_chars_nth:
  "i < 4 \<Longrightarrow> of_char (codec_chars c ! i) = c div 256 ^ i mod 256"
proof -
  assume i: "i < 4"
  have "(2::int) ^ (8 * i) = 256 ^ i"
    by (simp add: power_mult)
  moreover from i have "codec_chars c ! i = char_of (drop_bit (8 * i) c AND 255)"
    unfolding codec_chars_def by (simp only: nth_map_upt) simp
  ultimately show ?thesis
    by (simp add: and_255 drop_bit_eq_div)
qed

lemma length_codec_chars: "length (codec_chars c) = 4"
  by (simp add: codec_chars_def)

lemma codec_tag_Unknown: "codec_tag c = ''Unknown'' \<longleftrightarrow> c = 0"
proof
  assume u: "codec_tag c = ''Unknown''"
  show "c = 0"
  proof (rule ccontr)
    assume "c \<noteq> 0"
    with u have "length (codec_chars c) = length ''Unknown''"
      by (simp add: codec_tag_def)
    then show False
      by (simp add: length_codec_chars)
  qed
qed (simp add: codec_tag_def)

lemma four_bytes:
  fixes c :: int
  assumes "0 \<le> c" and "c < 2 ^ 32"
  shows "c mod 256 + 256 * (c div 256 mod 256) + 65536 * (c div 65536 mod 256)
    + 16777216 * (c div 16777216 mod 256) = c"
proof -
  have a: "c div 65536 = c div 256 div 256"
    by (simp add: div_mult2_eq [symmetric])
  have b: "c div 16777216 = c div 256 div 256 div 256"
    by (simp add: div_mult2_eq [symmetric])
  have "c div 16777216 mod 256 = c div 16777216"
    using assms by (intro mod_pos_pos_trivial) (simp_all add: pos_imp_zdiv_nonneg_iff div_less_iff_less_mult [symmetric])
  moreover have "256 * (c div 256) + c mod 256 = c"
    "256 * (c div 256 div 256) + c div 256 mod 256 = c div 256"
    "256 * (c div 256 div 256 div 256) + c div 256 div 256 mod 256 = c div 256 div 256"
    by (rule mult_div_mod_eq)+
  ultimately show ?thesis
    unfolding a b by linarith
qed

text \<open>
  C8. The codec tag of the metadata is read off the integer \<open>c\<close> that the source's
  FOURCC value truncates to: it is \<open>Unknown\<close> exactly when \<open>c = 0\<close>; otherwise it
  has four characters, the \<open>i\<close>-th being byte \<open>i\<close> of \<open>c\<close> counted from the least
  significant one, and for a 32-bit value the four characters give \<open>c\<close> back.
\<close>

theorem codec_tag_bytes:
  fixes cap :: video_source
  defines "c \<equiv> py_int (prop_fourcc cap)"
  defines "tag \<equiv> codec_str (read_metadata cap)"
  shows "(tag = ''Unknown'' \<longleftrightarrow> c = 0)
    \<and> (c \<noteq> 0 \<longrightarrow> length tag = 4 \<and> (\<forall>i<4. of_char (tag ! i) = c div 256 ^ i mod 256))
    \<and> (0 < c \<and> c < 2 ^ 32 \<longrightarrow>
          of_char (tag ! 0) + 256 * of_char (tag ! 1) + 65536 * of_char (tag ! 2)
            + 16777216 * of_char (tag ! 3) = c)"
proof (intro conjI impI)
  have tag: "tag = codec_tag c"
    by (simp add: tag_def c_def read_metadata_def Let_def)
  show "tag = ''Unknown'' \<longleftrightarrow> c = 0"
    by (simp only: tag codec_tag_Unknown)
  show "length tag = 4" if "c \<noteq> 0"
    using that by (simp add: tag codec_tag_def length_codec_chars)
  show "\<forall>i<4. of_char (tag ! i) = c div 256 ^ i mod 256" if "c \<noteq> 0"
    using that by (simp add: tag codec_tag_def codec_chars_nth)
  show "of_char (tag ! 0) + 256 * of_char (tag ! 1) + 65536 * of_char (tag ! 2)
      + 16777216 * of_char (tag ! 3) = c" if c: "0 < c \<and> c < 2 ^ 32"
  proof -
    from c have t: "tag = codec_chars c"
      by (simp add: tag codec_tag_def)
    have b0: "of_char (tag ! 0) = c mod 256"
      using codec_chars_nth [of 0 c] by (simp add: t)
    have b1: "of_char (tag ! 1) = c div 256 mod 256"
      using codec_chars_nth [of 1 c] by (simp add: t)
    have b2: "of_char (tag ! 2) = c div 65536 mod 256"
      using codec_chars_nth [of 2 c] by (simp add: t)
    have b3: "of_char (tag ! 3) = c div 16777216 mod 256"
      using codec_chars_nth [of 3 c] by (simp add: t)
    have "0 \<le> c" and "c < 2 ^ 32"
      using c by simp_all
    then show ?thesis
      unfolding b0 b1 b2 b3 by (rule four_bytes)
  qed
qed

theorem codec_tag_bytes_witness:
  "(codec_str (read_metadata clip) = ''Unknown'' \<longleftrightarrow> py_int (prop_fourcc clip) = 0)
   \<and> py_int (prop_fourcc clip) = 875967048
   \<and> length (codec_str (read_metadata clip)) = 4
   \<and> of_char (codec_str (read_metadata clip) ! 0) = (72::int)
   \<and> of_char (codec_str (read_metadata clip) ! 0)
       + 256 * of_char (codec_str (read_metadata clip) ! 1)
       + 65536 * of_char (codec_str (read_metadata clip) ! 2)
       + 16777216 * of_char (codec_str (read_metadata clip) ! 3) = py_int (prop_fourcc clip)"
proof -
  have c: "py_int (prop_fourcc clip) = 875967048"
    by (simp add: py_int_def clip_def)
  from codec_tag_bytes [of clip] show ?thesis
    unfolding c by simp
qed

section \<open>The size of the pool, and exceptions\<close>

lemma submitted_indices:
  assumes "i < length (snd (snd (read_loop e rs 0 [])))"
  shows "snd (snd (snd (read_loop e rs 0 [])) ! i) = i"
proof -
  obtain r n futs where loop: "read_loop e rs 0 [] = (r, n, futs)"
    by (cases "read_loop e rs 0 []") auto
  then have m: "map snd futs = [0..<n]"
    using read_loop_indices [of e rs 0 "[]" r n futs] by simp
  then have "length futs = n"
    by (metis length_map length_upt minus_nat.diff_0)
  moreover from this assms loop have "map snd futs ! i = [0..<n] ! i" and "i < n"
    by (simp_all add: m)
  ultimately show ?thesis
    using loop by simp
qed

lemma submitted_length:
  "length (snd (snd (read_loop e rs 0 []))) = fst (snd (read_loop e rs 0 []))"
proof -
  obtain r n futs where loop: "read_loop e rs 0 [] = (r, n, futs)"
    by (cases "read_loop e rs 0 []") auto
  then have "map snd futs = [0..<n]"
    using read_loop_indices [of e rs 0 "[]" r n futs] by simp
  then have "length futs = n"
    by (metis length_map length_upt minus_nat.diff_0)
  with loop show ?thesis
    by simp
qed


lemma handled_rest:
  "files (snd (case r of (Inl x, w') \<Rightarrow> print e (Error x) w' | (Inr u, w') \<Rightarrow> (Inr u, w')))
    = files (snd r)"
  "dirs (snd (case r of (Inl x, w') \<Rightarrow> print e (Error x) w' | (Inr u, w') \<Rightarrow> (Inr u, w')))
    = dirs (snd r)"
  "handle (snd (case r of (Inl x, w') \<Rightarrow> print e (Error x) w' | (Inr u, w') \<Rightarrow> (Inr u, w')))
    = handle (snd r)"
  by (cases r; cases "fst r"; simp add: print_rest)+

lemma extract_frames_rest:
  "files (snd (extract_frames e s video dir threads w))
    = files (snd (extract_body e s video dir threads w))"
  "dirs (snd (extract_frames e s video dir threads w))
    = dirs (snd (extract_body e s video dir threads w))"
  "handle (snd (extract_frames e s video dir threads w))
    = handle (snd (extract_body e s video dir threads w))"
  by (simp_all add: extract_frames_def handled_rest)

lemma files_extract_frames:
  "files (snd (extract_frames e s video dir threads w)) =
     (if is_file w video \<and> \<not> isl (mkdir e dir w) \<and> opened (capture e video)
      then files (snd (pipeline e s (capture e video) dir threads (at_pool e video dir w)))
      else files w)"
proof (cases "is_file w video")
  case False
  then show ?thesis
    by (simp add: extract_frames_rest extract_body_def print_rest)
next
  case there: True
  show ?thesis
  proof (cases "mkdir e dir w")
    case (Inl a)
    then obtain x w' where m: "mkdir e dir w = Inl (x, w')"
      by (cases a) simp
    with mkdir_Inl [OF m] there show ?thesis
      by (simp add: extract_frames_rest extract_body_def)
  next
    case (Inr w1)
    show ?thesis
    proof (cases "opened (capture e video)")
      case True
      with there Inr show ?thesis
        by (simp add: extract_frames_run [of w video e dir w1] print_rest handled_rest
            split: sum.split)
    next
      case False
      with there Inr mkdir_Inr [OF Inr] show ?thesis
        by (simp add: extract_frames_rest extract_body_def Let_def)
    qed
  qed
qed










section \<open>What a run leaves in the output directory\<close>

lemma digit_char_digit: "d < 10 \<Longrightarrow> digit_char d \<in> set ''0123456789''"
  unfolding digit_char_def by (rule nth_mem) simp

lemma dec_digits: "list_all (\<lambda>c. c \<in> set ''0123456789'') (dec n)"
proof (induction n rule: dec.induct)
  case (1 n)
  show ?case
  proof (cases "n < 10")
    case True
    then show ?thesis
      using digit_char_digit [of n] by (subst dec.simps) simp
  next
    case False
    then have "list_all (\<lambda>c. c \<in> set ''0123456789'') (dec (n div 10))"
      using "1.IH" by simp
    with False show ?thesis
      using digit_char_digit [of "n mod 10"] by (subst dec.simps) simp
  qed
qed

lemma pad4_digits: "list_all (\<lambda>c. c \<in> set ''0123456789'') (pad4 n)"
proof -
  have "list_all (\<lambda>c. c \<in> set ''0123456789'') (replicate k CHR ''0'')" for k
    by (induction k) simp_all
  then show ?thesis
    using dec_digits [of n] by (simp only: pad4_def list_all_append)
qed

lemma length_pad4: "4 \<le> length (pad4 n)"
  by (simp add: pad4_def)

lemma is_frame_name_frame_name: "is_frame_name (frame_name n)"
proof -
  have "drop 6 (frame_name n) = pad4 n @ ''.jpg''"
    by (simp add: frame_name_def)
  moreover have "length (frame_name n) - 10 = length (pad4 n)"
    by (simp add: frame_name_def)
  ultimately have "take (length (frame_name n) - 10) (drop 6 (frame_name n)) = pad4 n"
    by simp
  then show ?thesis
    unfolding is_frame_name_def Let_def
    using pad4_digits [of n] length_pad4 [of n] by (simp add: frame_name_def)
qed

lemma frame_path_in_dir:
  "frame_path dir i \<noteq> [] \<and> butlast (frame_path dir i) = dir
    \<and> is_frame_name (last (frame_path dir i))"
  by (simp add: frame_path_def is_frame_name_frame_name)

lemma pipeline_stored:
  assumes "0 < threads"
    and "i < length (snd (snd (read_loop e (stream cap) 0 [])))"
    and "imwrite e (frame_path dir i) (fst (snd (snd (read_loop e (stream cap) 0 [])) ! i)) = Stored"
  shows "files (snd (pipeline e s cap dir threads w)) (frame_path dir i)
    = Some (Jpeg (fst (snd (snd (read_loop e (stream cap) 0 [])) ! i)))"
proof -
  let ?futs = "snd (snd (read_loop e (stream cap) 0 []))"
  have "files (snd (run_jobs e dir ?futs (run_order s (nat threads) (length ?futs)) w))
      (frame_path dir i) = Some (Jpeg (fst (?futs ! i)))"
  proof (rule run_jobs_stored)
    fix j assume "j \<in> set (run_order s (nat threads) (length ?futs))"
    then have "j < length ?futs"
      by (simp add: set_run_order)
    then show "snd (?futs ! j) = j"
      by (rule submitted_indices)
  next
    show "i \<in> set (run_order s (nat threads) (length ?futs))"
      using assms(2) by (simp add: set_run_order)
  next
    show "imwrite e (frame_path dir i) (fst (?futs ! i)) = Stored"
      by (rule assms(3))
  qed
  then show ?thesis
    using assms(1) by (simp only: pipeline_snd)
qed

lemma pipeline_untouched:
  assumes "\<And>i. i < length (snd (snd (read_loop e (stream cap) 0 []))) \<Longrightarrow> p = frame_path dir i
      \<Longrightarrow> imwrite e p (fst (snd (snd (read_loop e (stream cap) 0 [])) ! i)) \<noteq> Stored"
  shows "files (snd (pipeline e s cap dir threads w)) p = files w p"
proof (cases "0 < threads")
  case True
  let ?futs = "snd (snd (read_loop e (stream cap) 0 []))"
  have "files (snd (run_jobs e dir ?futs (run_order s (nat threads) (length ?futs)) w)) p
      = files w p"
  proof (rule run_jobs_other)
    fix j assume "j \<in> set (run_order s (nat threads) (length ?futs))"
    then have "j < length ?futs"
      by (simp add: set_run_order)
    then show "snd (?futs ! j) = j"
      by (rule submitted_indices)
  next
    fix j assume "j \<in> set (run_order s (nat threads) (length ?futs))" and "p = frame_path dir j"
    then show "imwrite e p (fst (?futs ! j)) \<noteq> Stored"
      using assms [of j] by (simp add: set_run_order)
  qed
  with True show ?thesis
    by (simp only: pipeline_snd)
next
  case False
  then show ?thesis
    by (simp add: pipeline_no_pool)
qed

lemma pipeline_Inr:
  assumes "fst (pipeline e s cap dir threads w) = Inr n"
  shows "0 < threads" and "fst (snd (read_loop e (stream cap) 0 [])) = n"
    and "\<And>i x. i < n \<Longrightarrow>
      imwrite e (frame_path dir i) (fst (snd (snd (read_loop e (stream cap) 0 [])) ! i))
        \<noteq> WriteRaises x"
proof -
  let ?futs = "snd (snd (read_loop e (stream cap) 0 []))"
  let ?failed = "fst (run_jobs e dir ?futs (run_order s (nat threads) (length ?futs)) w)"
  show t: "0 < threads"
    using assms by (cases "0 < threads") (simp_all add: pipeline_no_pool)
  from assms t have nf: "?failed = []" and n: "fst (snd (read_loop e (stream cap) 0 [])) = n"
    by (auto simp: pipeline_fst Let_def split: sum.splits if_splits)
  show "fst (snd (read_loop e (stream cap) 0 [])) = n"
    by (rule n)
  show "imwrite e (frame_path dir i) (fst (?futs ! i)) \<noteq> WriteRaises x" if "i < n" for i x
  proof
    assume r: "imwrite e (frame_path dir i) (fst (?futs ! i)) = WriteRaises x"
    have len: "i < length ?futs"
      using that n by (simp add: submitted_length)
    then have "snd (?futs ! i) = i"
      by (rule submitted_indices)
    with r have "imwrite e (frame_path dir (snd (?futs ! i))) (fst (?futs ! i)) = WriteRaises x"
      by simp
    moreover have "i \<in> set (run_order s (nat threads) (length ?futs))"
      using len by (simp add: set_run_order)
    ultimately have "x \<in> set ?failed"
      unfolding run_jobs_failed by blast
    with nf show False
      by simp
  qed
qed






lemma handled_console:
  "console (snd (case r of (Inl x, w') \<Rightarrow> print e (Error x) w' | (Inr u, w') \<Rightarrow> (Inr u, w')))
    = (case fst r of
         Inl x \<Rightarrow> if accepted e (Error x) then console (snd r) @ [Error x] else console (snd r)
       | Inr u \<Rightarrow> console (snd r))"
  by (cases r; cases "fst r") (simp_all add: print_console)

text \<open>
  A run whose last printed line is the success line went all the way: the video exists
  and opens, \<open>mkdir\<close> returned, and the pipeline gave the count that the line reports.
\<close>

lemma success_run:
  assumes "drop (length (console w)) (console (snd (extract_frames e s video dir threads w))) \<noteq> []"
    and "last (console (snd (extract_frames e s video dir threads w))) = Success n v"
  shows "is_file w video" and "\<not> isl (mkdir e dir w)" and "opened (capture e video)"
    and "fst (pipeline e s (capture e video) dir threads (at_pool e video dir w)) = Inr n"
proof -
  show f: "is_file w video"
  proof (rule ccontr)
    assume "\<not> is_file w video"
    then have "extract_body e s video dir threads w = print e (NotFound video) w"
      by (simp add: extract_body_def)
    with assms show False
      by (auto simp: extract_frames_def handled_console print_console print_def
          split: option.splits if_splits)
  qed
  show m: "\<not> isl (mkdir e dir w)"
  proof
    assume "isl (mkdir e dir w)"
    then obtain x w' where mk: "mkdir e dir w = Inl (x, w')"
      by (cases "mkdir e dir w") auto
    then have "extract_body e s video dir threads w = (Inl x, w')"
      using f by (simp add: extract_body_def)
    with assms mkdir_Inl [OF mk] show False
      by (auto simp: extract_frames_def print_console split: if_splits)
  qed
  then obtain w1 where w1: "mkdir e dir w = Inr w1"
    by (cases "mkdir e dir w") simp_all
  show o: "opened (capture e video)"
  proof (rule ccontr)
    assume "\<not> opened (capture e video)"
    with f w1 have "extract_frames e s video dir threads w
        = (Inr (), w1\<lparr>handle := NeverOpened, console := console w1 @ [OpenFailed]\<rparr>)"
      by (simp add: extract_frames_def extract_body_def Let_def)
    with assms(2) show False
      by simp
  qed
  let ?P = "pipeline e s (capture e video) dir threads (at_pool e video dir w)"
  have table: "console (snd ?P) = console w @ [Table (read_metadata (capture e video))]"
    by (simp add: pipeline_rest at_pool_def)
  show "fst ?P = Inr n"
  proof (cases "fst ?P")
    case (Inl x)
    with assms(2) show ?thesis
      by (auto simp: extract_frames_run [OF f w1 o] print_console table split: if_splits)
  next
    case (Inr k)
    with assms(2) have "k = n"
      by (auto simp: extract_frames_run [OF f w1 o] handled_console print_console print_def table
          split: option.splits if_splits)
    with Inr show ?thesis
      by simp
  qed
qed

lemma dec_12345: "dec 12345 = ''12345''"
  by (simp add: dec.simps [of 12345] dec.simps [of 1234] dec.simps [of 123] dec.simps [of 12]
      dec.simps [of "Suc 0"] digit_char_def)

lemma frame_name_12345: "frame_name 12345 = ''frame_12345.jpg''"
  by (simp add: frame_name_def pad4_def dec_12345)

lemma pipeline_calm:
  "fst (pipeline calm fifo clip dir 4 w) = Inr 3"
  by (simp add: pipeline_def calm_def clip_def fifo_def save_frame_def insert_at_def Let_def
      split: prod.split)

lemma run_jobs_silent: "run_jobs silent dir futs order w = ([], w)"
  by (induction order) (simp_all add: save_frame_def silent_def calm_def Let_def)

lemma pipeline_silent_pool:
  "0 < threads \<Longrightarrow> pipeline silent s clip dir threads w = (Inr 3, w)"
  by (simp add: pipeline_def run_jobs_silent split: prod.split)
    (simp add: silent_def calm_def clip_def)

lemma pipeline_silent:
  "pipeline silent fifo clip dir 4 w = (Inr 3, w)"
  by (simp add: pipeline_silent_pool)

lemma mkdir_start_silent: "mkdir silent [''out'', ''x''] start
    = Inr (start\<lparr>dirs := dirs start \<union> set (with_parents [''out'', ''x''])\<rparr>)"
  by (rule mkdir_out_x) (simp add: silent_def calm_def)

lemma accepted_Success_a: "accepted calm (Success n [''clips'', ''a.mp4''])"
  "accepted silent (Success n [''clips'', ''a.mp4''])"
  by (simp_all add: accepted_def)

lemma run_silent:
  assumes "0 < threads"
  shows "extract_frames silent s [''clips'', ''a.mp4''] [''out'', ''x''] threads start
    = (Inr (), (at_pool silent [''clips'', ''a.mp4''] [''out'', ''x''] start)
        \<lparr>handle := Released,
          console := [Table (read_metadata clip), Success 3 [''clips'', ''a.mp4'']]\<rparr>)"
proof -
  have o: "opened (capture silent [''clips'', ''a.mp4''])"
    by (simp add: silent_def calm_def clip_def)
  have c: "capture silent [''clips'', ''a.mp4''] = clip"
    by (simp add: silent_def calm_def)
  show ?thesis
    using assms
    by (simp add: extract_frames_run [OF is_file_start mkdir_start_silent o] c
        pipeline_silent_pool print_accepted accepted_Success_a)
      (simp add: at_pool_def start_def c)
qed




text \<open>
  C2, under two conditions that the sentence does not state. The run has ended with the
  success line for \<open>n\<close> frames: it printed something, and the last line on the console
  is that one. When no call of \<open>cv2.imwrite\<close> returns \<open>False\<close> and the output
  directory held no frame image file before, then \<open>n\<close> is the final \<open>frame_count\<close>, and
  the frame image files in the output directory are those of the indices below \<open>n\<close>,
  \<open>n\<close> of them.
\<close>

theorem reported_count_is_file_count:
  assumes "last (console (snd (extract_frames e s video dir threads w))) = Success n v"
    and "drop (length (console w)) (console (snd (extract_frames e s video dir threads w))) \<noteq> []"
    and "\<forall>p f. imwrite e p f \<noteq> NotStored"
    and "frame_files dir w = {}"
  shows "fst (snd (read_loop e (stream (capture e video)) 0 [])) = n
    \<and> frame_files dir (snd (extract_frames e s video dir threads w)) = frame_path dir ` {0..<n}
    \<and> card (frame_files dir (snd (extract_frames e s video dir threads w))) = n"
proof -
  let ?cap = "capture e video"
  let ?futs = "snd (snd (read_loop e (stream ?cap) 0 []))"
  let ?P = "pipeline e s ?cap dir threads (at_pool e video dir w)"
  let ?w' = "snd (extract_frames e s video dir threads w)"
  note run = success_run [OF assms(2,1)]
  note P = pipeline_Inr [OF run(4)]
  have len: "length ?futs = n"
    using P(2) by (simp add: submitted_length)
  have files: "files ?w' = files (snd ?P)"
    using run(1-3) by (simp add: files_extract_frames)
  have st: "imwrite e (frame_path dir i) (fst (?futs ! i)) = Stored" if "i < n" for i
    using P(3) [OF that] assms(3)
    by (cases "imwrite e (frame_path dir i) (fst (?futs ! i))") auto
  have stored: "frame_path dir i \<in> dom (files ?w')" if "i < n" for i
    using pipeline_stored [OF P(1), of i e ?cap dir s "at_pool e video dir w"] st [OF that] that
    by (simp add: files len dom_def)
  have other: "files ?w' p = files w p" if "p \<notin> frame_path dir ` {0..<n}" for p
  proof -
    have "files (snd ?P) p = files (at_pool e video dir w) p"
      using that by (intro pipeline_untouched) (auto simp: len)
    then show ?thesis
      by (simp add: files at_pool_def)
  qed
  have "frame_files dir ?w' = frame_path dir ` {0..<n}"
  proof (rule set_eqI)
    fix p
    show "p \<in> frame_files dir ?w' \<longleftrightarrow> p \<in> frame_path dir ` {0..<n}"
    proof (cases "p \<in> frame_path dir ` {0..<n}")
      case True
      then obtain i where "i < n" and "p = frame_path dir i"
        by auto
      with stored [of i] frame_path_in_dir [of dir i] True show ?thesis
        by (simp add: frame_files_def)
    next
      case False
      have "p \<notin> frame_files dir w"
        by (simp add: assms(4))
      with other [OF False] False show ?thesis
        by (simp add: frame_files_def dom_def)
    qed
  qed
  with P(2) show ?thesis
    by (simp add: card_frame_paths)
qed

theorem reported_count_is_file_count_witness:
  "last (console (snd (extract_frames calm fifo [''clips'', ''a.mp4''] [''out'', ''x''] 4 start)))
      = Success 3 [''clips'', ''a.mp4'']
   \<and> frame_files [''out'', ''x''] start = {}
   \<and> card (frame_files [''out'', ''x'']
        (snd (extract_frames calm fifo [''clips'', ''a.mp4''] [''out'', ''x''] 4 start))) = 3"
proof -
  have o: "opened (capture calm [''clips'', ''a.mp4''])"
    by (simp add: calm_def clip_def)
  have c: "capture calm [''clips'', ''a.mp4''] = clip"
    by (simp add: calm_def)
  have k: "console (snd (extract_frames calm fifo [''clips'', ''a.mp4''] [''out'', ''x''] 4 start))
      = [Table (read_metadata clip), Success 3 [''clips'', ''a.mp4'']]"
    by (simp add: extract_frames_run [OF is_file_start mkdir_start o] c pipeline_calm
        print_accepted accepted_Success_a pipeline_rest at_pool_def)
      (simp add: start_def)
  have l: "last (console (snd (extract_frames calm fifo [''clips'', ''a.mp4''] [''out'', ''x''] 4 start)))
      = Success 3 [''clips'', ''a.mp4'']"
    by (simp add: k)
  have p: "drop (length (console start))
      (console (snd (extract_frames calm fifo [''clips'', ''a.mp4''] [''out'', ''x''] 4 start))) \<noteq> []"
    unfolding k by (simp add: start_def)
  have i: "\<forall>p f. imwrite calm p f \<noteq> NotStored"
    by (simp add: calm_def)
  have f: "frame_files [''out'', ''x''] start = {}"
    by (auto simp: frame_files_def start_def)
  from reported_count_is_file_count [OF l p i f] l f show ?thesis
    by blast
qed

text \<open>
  C2 as it is written does not hold: on a disk where \<open>cv2.imwrite\<close> stores nothing and
  returns \<open>False\<close>, the run ends with "Extracted 3 frames" and the output directory
  holds no frame image file.
\<close>

theorem reported_count_counterexample:
  "last (console (snd (extract_frames silent fifo [''clips'', ''a.mp4''] [''out'', ''x''] 4 start)))
      = Success 3 [''clips'', ''a.mp4'']
   \<and> card (frame_files [''out'', ''x'']
        (snd (extract_frames silent fifo [''clips'', ''a.mp4''] [''out'', ''x''] 4 start))) = 0"
proof -
  have rs: "extract_frames silent fifo [''clips'', ''a.mp4''] [''out'', ''x''] 4 start
      = (Inr (), (at_pool silent [''clips'', ''a.mp4''] [''out'', ''x''] start)
          \<lparr>handle := Released,
            console := [Table (read_metadata clip), Success 3 [''clips'', ''a.mp4'']]\<rparr>)"
    by (simp add: run_silent)
  have "frame_files [''out'', ''x'']
      (snd (extract_frames silent fifo [''clips'', ''a.mp4''] [''out'', ''x''] 4 start)) = {}"
    unfolding rs by (auto simp: frame_files_def at_pool_def start_def)
  then show ?thesis
    unfolding rs by simp
qed

end
